theory Spec2Isabelle
  imports Main "HOL-Library.Sublist"
begin

section \<open>The media engine consumed by the pipeline builder\<close>

text \<open>
  \<^verbatim>\<open>src/main.cpp\<close> drives GStreamer through a handful of library calls. The library is
  not part of the repository, so its calls are modelled here as operations on an explicit
  store of native objects: every object lives at an address, carries a reference count and
  disappears from the store when its last reference is dropped. Every decision the library
  takes on its own (is a plugin installed, does a bin accept a child, does a caps string
  parse, do two stages negotiate) is a field of a record \<open>gst_env\<close> and may depend on the whole
  store. The store also keeps the list of established links, for every pad the number of
  references that were handed out to callers and not given back, and the trace of the
  calls that create, release, link or configure objects, in call order.
\<close>

type_synonym ptr = nat

abbreviation NULL :: ptr where
  "NULL \<equiv> 0"

datatype GstState =
  GST_STATE_VOID_PENDING | GST_STATE_NULL | GST_STATE_READY | GST_STATE_PAUSED | GST_STATE_PLAYING

datatype GstStateChangeReturn =
  GST_STATE_CHANGE_FAILURE | GST_STATE_CHANGE_SUCCESS | GST_STATE_CHANGE_ASYNC
  | GST_STATE_CHANGE_NO_PREROLL

datatype gvalue = GString string | GInt int

text \<open>A native object: a stage (plugin type, name, parent bin), a caps filter, a main loop.\<close>

datatype gobject = Element string string ptr | Caps string | MainLoop

text \<open>A pad is named by its owning stage and its pad name.\<close>

type_synonym pad = "ptr \<times> string"

datatype call =
    MakeElement string string ptr
  | BinAdd ptr ptr bool
  | ObjectUnref ptr
  | CapsFromString string ptr
  | CapsUnref ptr
  | ElementLink ptr ptr bool
  | ElementLinkFiltered ptr ptr ptr bool
  | ElementLinkPads ptr string ptr string bool
  | ObjectSet ptr string gvalue
  | SignalConnect ptr string nat ptr
  | SetState ptr GstState GstStateChangeReturn
  | MainLoopNew ptr

record engine =
  objects :: "ptr \<Rightarrow> gobject option"
  refcount :: "ptr \<Rightarrow> nat"
  allocated :: nat
  links :: "(pad \<times> pad) list"
  pad_refs :: "pad \<Rightarrow> nat"
  calls :: "call list"

record gst_env =
  factory_exists :: "string \<Rightarrow> bool"
  bin_accepts :: "engine \<Rightarrow> ptr \<Rightarrow> ptr \<Rightarrow> bool"
  caps_parses :: "string \<Rightarrow> bool"
  can_link :: "engine \<Rightarrow> ptr \<Rightarrow> ptr \<Rightarrow> bool"
  can_link_filtered :: "engine \<Rightarrow> ptr \<Rightarrow> ptr \<Rightarrow> ptr \<Rightarrow> bool"
  can_link_pads :: "engine \<Rightarrow> pad \<Rightarrow> pad \<Rightarrow> bool"
  filter_kept :: bool
  state_change :: "engine \<Rightarrow> ptr \<Rightarrow> GstState \<Rightarrow> GstStateChangeReturn"

definition gst_start :: engine where
  "gst_start = \<lparr>objects = Map.empty, refcount = (\<lambda>_. 0), allocated = 0, links = [],
      pad_refs = (\<lambda>_. 0), calls = []\<rparr>"

definition record_call :: "call \<Rightarrow> engine \<Rightarrow> engine" where
  "record_call c e = e\<lparr>calls := calls e @ [c]\<rparr>"

text \<open>Allocation hands out the next unused address (never \<open>NULL\<close>) with one reference.\<close>

definition g_new :: "gobject \<Rightarrow> engine \<Rightarrow> ptr \<times> engine" where
  "g_new ob e =
     (let p = allocated e + 1
      in (p, e\<lparr>objects := (objects e)(p \<mapsto> ob), refcount := (refcount e)(p := 1),
               allocated := p\<rparr>))"

text \<open>Dropping a reference frees the object when it was the last one.\<close>

definition g_unref :: "ptr \<Rightarrow> engine \<Rightarrow> engine" where
  "g_unref p e =
     (if objects e p = None then e
      else if refcount e p \<le> 1
        then e\<lparr>objects := (objects e)(p := None), refcount := (refcount e)(p := 0)\<rparr>
        else e\<lparr>refcount := (refcount e)(p := refcount e p - 1)\<rparr>)"

text \<open>
  Modelled from the spec: the type-check macros \<^verbatim>\<open>GST_IS_ELEMENT\<close> and \<^verbatim>\<open>GST_IS_CAPS\<close>
  of the library headers. The spec reads them as "the handle is live" and "a filter is
  present": the pointer is not \<open>NULL\<close> and the store holds an object of that kind there.
\<close>

definition GST_IS_ELEMENT :: "engine \<Rightarrow> ptr \<Rightarrow> bool" where
  "GST_IS_ELEMENT e p =
     (p \<noteq> NULL \<and> (case objects e p of Some (Element f n b) \<Rightarrow> True | _ \<Rightarrow> False))"

definition GST_IS_CAPS :: "engine \<Rightarrow> ptr \<Rightarrow> bool" where
  "GST_IS_CAPS e p =
     (p \<noteq> NULL \<and> (case objects e p of Some (Caps d) \<Rightarrow> True | _ \<Rightarrow> False))"

text \<open>
  Modelled from the spec: the consumed interface of section 6,
  \<^verbatim>\<open>create(pluginType, name) -> nativeHandle | failure\<close>.
\<close>

definition gst_element_factory_make :: "gst_env \<Rightarrow> string \<Rightarrow> string \<Rightarrow> engine \<Rightarrow> ptr \<times> engine" where
  "gst_element_factory_make orc factory name e =
     (if factory_exists orc factory
      then (case g_new (Element factory name NULL) e of
              (p, e1) \<Rightarrow> (p, record_call (MakeElement factory name p) e1))
      else (NULL, record_call (MakeElement factory name NULL) e))"

text \<open>
  Modelled from the spec: \<^verbatim>\<open>attach(graph, nativeHandle) -> success|failure\<close>. A stage
  that already has a parent is refused, and so is a bin as its own child; on success the
  bin becomes the parent.
\<close>

definition gst_bin_add :: "gst_env \<Rightarrow> ptr \<Rightarrow> ptr \<Rightarrow> engine \<Rightarrow> bool \<times> engine" where
  "gst_bin_add orc bin el e =
     (case objects e el of
        Some (Element f n par) \<Rightarrow>
          if GST_IS_ELEMENT e bin \<and> par = NULL \<and> bin \<noteq> el \<and> bin_accepts orc e bin el
          then (True, record_call (BinAdd bin el True)
                        (e\<lparr>objects := (objects e)(el \<mapsto> Element f n bin)\<rparr>))
          else (False, record_call (BinAdd bin el False) e)
      | _ \<Rightarrow> (False, record_call (BinAdd bin el False) e))"

definition gst_object_unref :: "ptr \<Rightarrow> engine \<Rightarrow> engine" where
  "gst_object_unref p e = record_call (ObjectUnref p) (g_unref p e)"

text \<open>Modelled from the spec: \<^verbatim>\<open>parseFilterSpec(string) -> filter | failure\<close>.\<close>

definition gst_caps_from_string :: "gst_env \<Rightarrow> string \<Rightarrow> engine \<Rightarrow> ptr \<times> engine" where
  "gst_caps_from_string orc str e =
     (if caps_parses orc str
      then (case g_new (Caps str) e of (p, e1) \<Rightarrow> (p, record_call (CapsFromString str p) e1))
      else (NULL, record_call (CapsFromString str NULL) e))"

definition gst_caps_unref :: "ptr \<Rightarrow> engine \<Rightarrow> engine" where
  "gst_caps_unref p e = record_call (CapsUnref p) (g_unref p e)"

text \<open>
  Modelled from the spec: \<^verbatim>\<open>link(a, b) -> success|failure\<close> and
  \<^verbatim>\<open>linkFiltered(a, b, filter) -> success|failure\<close>. A link between two stages joins the
  pad \<open>src\<close> of the first to the pad \<open>sink\<close> of the second. A successful filtered link
  leaves a filter stage in the graph; when \<open>filter_kept\<close> holds, that stage takes a
  reference of its own to the filter (GStreamer's capsfilter does).
\<close>

definition gst_element_link :: "gst_env \<Rightarrow> ptr \<Rightarrow> ptr \<Rightarrow> engine \<Rightarrow> bool \<times> engine" where
  "gst_element_link orc a b e =
     (let ok = (GST_IS_ELEMENT e a \<and> GST_IS_ELEMENT e b \<and> can_link orc e a b)
      in (ok, record_call (ElementLink a b ok)
                (if ok then e\<lparr>links := links e @ [((a, ''src''), (b, ''sink''))]\<rparr> else e)))"

definition gst_element_link_filtered ::
  "gst_env \<Rightarrow> ptr \<Rightarrow> ptr \<Rightarrow> ptr \<Rightarrow> engine \<Rightarrow> bool \<times> engine" where
  "gst_element_link_filtered orc a b c e =
     (let ok = (GST_IS_ELEMENT e a \<and> GST_IS_ELEMENT e b \<and> GST_IS_CAPS e c
                \<and> can_link_filtered orc e a b c)
      in (ok, record_call (ElementLinkFiltered a b c ok)
                (if ok
                 then e\<lparr>refcount := (if filter_kept orc
                                      then (refcount e)(c := refcount e c + 1)
                                      else refcount e),
                         links := links e @ [((a, ''src''), (b, ''sink''))]\<rparr>
                 else e)))"

definition gst_element_link_pads ::
  "gst_env \<Rightarrow> ptr \<Rightarrow> string \<Rightarrow> ptr \<Rightarrow> string \<Rightarrow> engine \<Rightarrow> bool \<times> engine" where
  "gst_element_link_pads orc a an b bn e =
     (let ok = (GST_IS_ELEMENT e a \<and> GST_IS_ELEMENT e b \<and> can_link_pads orc e (a, an) (b, bn))
      in (ok, record_call (ElementLinkPads a an b bn ok)
                (if ok then e\<lparr>links := links e @ [((a, an), (b, bn))]\<rparr> else e)))"

text \<open>
  The pad of a live stage, or nothing (the library returns \<open>NULL\<close>). The library hands the
  pad out with a new reference, which the caller has to give back with
  \<^verbatim>\<open>gst_object_unref\<close>; the store counts it.
\<close>

definition gst_element_get_static_pad :: "ptr \<Rightarrow> string \<Rightarrow> engine \<Rightarrow> pad option \<times> engine" where
  "gst_element_get_static_pad el name e =
     (if GST_IS_ELEMENT e el
      then (Some (el, name),
            e\<lparr>pad_refs := (pad_refs e)((el, name) := pad_refs e (el, name) + 1)\<rparr>)
      else (None, e))"

definition gst_pad_is_linked :: "engine \<Rightarrow> pad option \<Rightarrow> bool" where
  "gst_pad_is_linked e p =
     (case p of None \<Rightarrow> False
      | Some pd \<Rightarrow> list_ex (\<lambda>l. fst l = pd \<or> snd l = pd) (links e))"

definition gst_pad_get_name :: "pad \<Rightarrow> string" where
  "gst_pad_get_name p = snd p"

text \<open>
  Modelled from the spec: \<^verbatim>\<open>setProperty(handle, key, value)\<close>,
  \<^verbatim>\<open>connectSignal(handle, name, callback, context)\<close> (no result) and
  \<^verbatim>\<open>setState(handle|graph, targetState) -> accepted|rejected\<close>.
\<close>

definition g_object_set :: "ptr \<Rightarrow> string \<Rightarrow> gvalue \<Rightarrow> engine \<Rightarrow> engine" where
  "g_object_set p key v e = record_call (ObjectSet p key v) e"

definition g_signal_connect :: "ptr \<Rightarrow> string \<Rightarrow> nat \<Rightarrow> ptr \<Rightarrow> engine \<Rightarrow> engine" where
  "g_signal_connect p sig cb data e = record_call (SignalConnect p sig cb data) e"

definition gst_element_set_state ::
  "gst_env \<Rightarrow> ptr \<Rightarrow> GstState \<Rightarrow> engine \<Rightarrow> GstStateChangeReturn \<times> engine" where
  "gst_element_set_state orc p st e =
     (let r = (if GST_IS_ELEMENT e p then state_change orc e p st else GST_STATE_CHANGE_FAILURE)
      in (r, record_call (SetState p st r) e))"

definition g_main_loop_new :: "engine \<Rightarrow> ptr \<times> engine" where
  "g_main_loop_new e = (case g_new MainLoop e of (p, e1) \<Rightarrow> (p, record_call (MainLoopNew p) e1))"

definition gst_pipeline_new :: "gst_env \<Rightarrow> string \<Rightarrow> engine \<Rightarrow> ptr \<times> engine" where
  "gst_pipeline_new orc name e = gst_element_factory_make orc ''pipeline'' name e"

definition gst_bin_new :: "gst_env \<Rightarrow> engine \<Rightarrow> ptr \<times> engine" where
  "gst_bin_new orc e = gst_element_factory_make orc ''bin'' [] e"

section \<open>The class \<^verbatim>\<open>GStreamPipeline\<close>\<close>

text \<open>
  The object's three members, and the engine state its methods act on. The registry
  \<open>m_pipeline_map\<close> is a \<^verbatim>\<open>std::map\<close> from names to pairs (stage, caps filter).
  Diagnostics written to standard output are not part of the state. \<^verbatim>\<open>gst_init\<close> does
  nothing to the store, so the constructor's flag \<open>init_gstream\<close> has no effect here, and
  \<^verbatim>\<open>runMainLoop\<close>, which blocks the caller, is left out.
\<close>

record GStreamPipeline =
  m_pipeline_map :: "string \<Rightarrow> (ptr \<times> ptr) option"
  m_pipeline :: ptr
  m_loop :: ptr
  gst :: engine

definition linkElement ::
  "gst_env \<Rightarrow> ptr \<Rightarrow> ptr \<Rightarrow> ptr \<Rightarrow> string \<Rightarrow> string \<Rightarrow> engine \<Rightarrow> bool \<times> engine" where
  "linkElement orc element caps child_element element_name child_element_name e =
     (if \<not> GST_IS_ELEMENT e element then (False, e)
      else if \<not> GST_IS_ELEMENT e child_element then (False, e)
      else if GST_IS_CAPS e caps then
        (case gst_element_link_filtered orc element child_element caps e of
           (ok, e1) \<Rightarrow>
             if \<not> ok then (False, gst_caps_unref caps e1)
             else (True, gst_caps_unref caps e1))
      else
        (case gst_element_link orc element child_element e of
           (ok, e1) \<Rightarrow> if \<not> ok then (False, e1) else (True, e1)))"

definition createElement :: "gst_env \<Rightarrow> string \<Rightarrow> string \<Rightarrow> ptr \<Rightarrow> engine \<Rightarrow> ptr \<times> engine" where
  "createElement orc element element_name pipe e =
     (if pipe = NULL then (NULL, e)
      else
        (case gst_element_factory_make orc element element_name e of
           (output, e1) \<Rightarrow>
             if output = NULL then (NULL, e1)
             else
               (case gst_bin_add orc pipe output e1 of
                  (added, e2) \<Rightarrow>
                    if \<not> added then (NULL, gst_object_unref output e2)
                    else (output, e2))))"

definition GStreamPipeline_new ::
  "gst_env \<Rightarrow> string \<Rightarrow> bool \<Rightarrow> bool \<Rightarrow> engine \<Rightarrow> GStreamPipeline" where
  "GStreamPipeline_new orc pipeline_name init_gstream create_main_loop e =
     (case (if create_main_loop then g_main_loop_new e else (NULL, e)) of
        (loop, e1) \<Rightarrow>
          (case gst_pipeline_new orc pipeline_name e1 of
             (pipe, e2) \<Rightarrow>
               \<lparr>m_pipeline_map = Map.empty, m_pipeline = pipe, m_loop = loop, gst = e2\<rparr>))"

text \<open>The two overloads of \<^verbatim>\<open>addElement\<close>.\<close>

definition addElement ::
  "gst_env \<Rightarrow> string \<Rightarrow> string \<Rightarrow> GStreamPipeline \<Rightarrow> bool \<times> GStreamPipeline" where
  "addElement orc element element_name s =
     (case createElement orc element element_name (m_pipeline s) (gst s) of
        (new_element, e1) \<Rightarrow>
          if \<not> GST_IS_ELEMENT e1 new_element then (False, s\<lparr>gst := e1\<rparr>)
          else (True, s\<lparr>m_pipeline_map := (m_pipeline_map s)(element_name \<mapsto> (new_element, NULL)),
                        gst := e1\<rparr>))"

definition addElement_caps ::
  "gst_env \<Rightarrow> string \<Rightarrow> string \<Rightarrow> string \<Rightarrow> GStreamPipeline \<Rightarrow> bool \<times> GStreamPipeline" where
  "addElement_caps orc element element_name element_caps s =
     (case createElement orc element element_name (m_pipeline s) (gst s) of
        (new_element, e1) \<Rightarrow>
          (case gst_caps_from_string orc element_caps e1 of
             (caps, e2) \<Rightarrow>
               if \<not> GST_IS_ELEMENT e2 new_element then (False, s\<lparr>gst := e2\<rparr>)
               else if \<not> GST_IS_CAPS e2 caps then (False, s\<lparr>gst := e2\<rparr>)
               else (False, s\<lparr>m_pipeline_map :=
                                  (m_pipeline_map s)(element_name \<mapsto> (new_element, caps)),
                               gst := e2\<rparr>)))"

text \<open>
  The loop of \<^verbatim>\<open>linkElementsByName\<close> walks an iterator and leaves when the next position is
  the end; the recursion below is on the rest of the vector from the iterator on.
\<close>

fun linkElementsByName ::
  "gst_env \<Rightarrow> string list \<Rightarrow> GStreamPipeline \<Rightarrow> bool \<times> GStreamPipeline" where
  "linkElementsByName orc [] s = (True, s)"
| "linkElementsByName orc [n] s = (True, s)"
| "linkElementsByName orc (n # c # rest) s =
     (case m_pipeline_map s n of
        None \<Rightarrow> (False, s)
      | Some parent_pair \<Rightarrow>
          (case m_pipeline_map s c of
             None \<Rightarrow> (False, s)
           | Some child_pair \<Rightarrow>
               (case linkElement orc (fst parent_pair) (snd parent_pair) (fst child_pair) n c
                       (gst s) of
                  (ok, e1) \<Rightarrow>
                    if \<not> ok then (False, s\<lparr>gst := e1\<rparr>)
                    else linkElementsByName orc (c # rest) (s\<lparr>gst := e1\<rparr>))))"

definition setElementSignal ::
  "string \<Rightarrow> string \<Rightarrow> nat \<Rightarrow> ptr \<Rightarrow> GStreamPipeline \<Rightarrow> bool \<times> GStreamPipeline" where
  "setElementSignal element_name signal_name callback user_data s =
     (case m_pipeline_map s element_name of
        None \<Rightarrow> (False, s)
      | Some found \<Rightarrow>
          if \<not> GST_IS_ELEMENT (gst s) (fst found) then (False, s)
          else (True, s\<lparr>gst := g_signal_connect (fst found) signal_name callback user_data
                                 (gst s)\<rparr>))"

definition setElementProperty ::
  "string \<Rightarrow> string \<Rightarrow> gvalue \<Rightarrow> GStreamPipeline \<Rightarrow> bool \<times> GStreamPipeline" where
  "setElementProperty element_name property_name property_value s =
     (case m_pipeline_map s element_name of
        None \<Rightarrow> (False, s)
      | Some found \<Rightarrow>
          if \<not> GST_IS_ELEMENT (gst s) (fst found) then (False, s)
          else (True, s\<lparr>gst := g_object_set (fst found) property_name property_value (gst s)\<rparr>))"

definition getElementByName :: "string \<Rightarrow> GStreamPipeline \<Rightarrow> ptr \<times> GStreamPipeline" where
  "getElementByName element_name s =
     (case m_pipeline_map s element_name of
        Some found \<Rightarrow> (fst found, s)
      | None \<Rightarrow> (NULL, s))"

definition setElementState ::
  "gst_env \<Rightarrow> string \<Rightarrow> GstState \<Rightarrow> GStreamPipeline \<Rightarrow> bool \<times> GStreamPipeline" where
  "setElementState orc element_name state s =
     (case m_pipeline_map s element_name of
        None \<Rightarrow> (False, s)
      | Some found \<Rightarrow>
          (case gst_element_set_state orc (fst found) state (gst s) of
             (r, e1) \<Rightarrow> (r \<noteq> GST_STATE_CHANGE_FAILURE, s\<lparr>gst := e1\<rparr>)))"

definition setPipelineState ::
  "gst_env \<Rightarrow> GstState \<Rightarrow> GStreamPipeline \<Rightarrow> bool \<times> GStreamPipeline" where
  "setPipelineState orc state s =
     (case gst_element_set_state orc (m_pipeline s) state (gst s) of
        (r, e1) \<Rightarrow> (r \<noteq> GST_STATE_CHANGE_FAILURE, s\<lparr>gst := e1\<rparr>))"

definition attachToBin :: "gst_env \<Rightarrow> GStreamPipeline \<Rightarrow> ptr \<times> GStreamPipeline" where
  "attachToBin orc s =
     (case gst_bin_new orc (gst s) of
        (bin, e1) \<Rightarrow>
          (case gst_bin_add orc bin (m_pipeline s) e1 of
             (added, e2) \<Rightarrow>
               if \<not> added then (NULL, s\<lparr>gst := gst_object_unref bin e2\<rparr>)
               else (bin, s\<lparr>gst := e2\<rparr>)))"

text \<open>
  The free function \<^verbatim>\<open>onPadAdded\<close>, called back by the engine on its own state. It never
  gives the reference on \<open>sink_pad\<close> back, on either path.
\<close>

definition onPadAdded :: "gst_env \<Rightarrow> ptr \<Rightarrow> pad \<Rightarrow> ptr \<Rightarrow> engine \<Rightarrow> engine" where
  "onPadAdded orc element pad data e =
     (case gst_element_get_static_pad data ''sink'' e of
        (sink_pad, e1) \<Rightarrow>
          if gst_pad_is_linked e1 sink_pad then e1
          else snd (gst_element_link_pads orc element (gst_pad_get_name pad) data ''sink'' e1))"

section \<open>Definitions used to state the properties\<close>

subsection \<open>Linking\<close>

text \<open>
  One link between two registered names, as one round of the loop of
  \<^verbatim>\<open>linkElementsByName\<close> performs it: both lookups first, then \<^verbatim>\<open>linkElement\<close>.
\<close>

definition linkPair_by_name ::
  "gst_env \<Rightarrow> string \<Rightarrow> string \<Rightarrow> GStreamPipeline \<Rightarrow> bool \<times> GStreamPipeline" where
  "linkPair_by_name orc a b s =
     (case m_pipeline_map s a of
        None \<Rightarrow> (False, s)
      | Some pp \<Rightarrow>
          (case m_pipeline_map s b of
             None \<Rightarrow> (False, s)
           | Some cp \<Rightarrow>
               (case linkElement orc (fst pp) (snd pp) (fst cp) a b (gst s) of
                  (ok, e1) \<Rightarrow> (ok, s\<lparr>gst := e1\<rparr>))))"

text \<open>
  The specification's wording of \<open>linkSequence\<close>: link the given pairs in order and stop
  at the first pair that fails, returning the state as that pair left it.
\<close>

fun linkSequence_spec ::
  "gst_env \<Rightarrow> (string \<times> string) list \<Rightarrow> GStreamPipeline \<Rightarrow> bool \<times> GStreamPipeline" where
  "linkSequence_spec orc [] s = (True, s)"
| "linkSequence_spec orc ((a, b) # ps) s =
     (case linkPair_by_name orc a b s of
        (ok, s1) \<Rightarrow> if ok then linkSequence_spec orc ps s1 else (False, s1))"

text \<open>The link attempts (upstream, downstream) found in a trace of engine calls, in order.\<close>

fun link_attempts :: "call list \<Rightarrow> (ptr \<times> ptr) list" where
  "link_attempts [] = []"
| "link_attempts (ElementLink a b ok # cs) = (a, b) # link_attempts cs"
| "link_attempts (ElementLinkFiltered a b c ok # cs) = (a, b) # link_attempts cs"
| "link_attempts (x # cs) = link_attempts cs"

text \<open>The stages a pair of names stands for.\<close>

definition resolve :: "GStreamPipeline \<Rightarrow> string \<times> string \<Rightarrow> ptr \<times> ptr" where
  "resolve s p = (fst (getElementByName (fst p) s), fst (getElementByName (snd p) s))"

text \<open>How often a trace releases the caps filter at a given address.\<close>

fun releases :: "ptr \<Rightarrow> call list \<Rightarrow> nat" where
  "releases p [] = 0"
| "releases p (CapsUnref q # cs) = (if q = p then 1 else 0) + releases p cs"
| "releases p (x # cs) = releases p cs"

subsection \<open>Creation\<close>

text \<open>
  The stage and the filter that a call of \<^verbatim>\<open>addElement\<close> obtains from the engine
  (\<open>NULL\<close> when creation, attachment or parsing failed).
\<close>

definition new_handle :: "gst_env \<Rightarrow> string \<Rightarrow> string \<Rightarrow> GStreamPipeline \<Rightarrow> ptr" where
  "new_handle orc element element_name s =
     fst (createElement orc element element_name (m_pipeline s) (gst s))"


text \<open>
  A sequence of two-argument \<^verbatim>\<open>addElement\<close> calls (plugin type, name); for each call the
  result and the stage it created are collected.
\<close>

fun create_all ::
  "gst_env \<Rightarrow> (string \<times> string) list \<Rightarrow> GStreamPipeline
     \<Rightarrow> (bool \<times> ptr) list \<times> GStreamPipeline" where
  "create_all orc [] s = ([], s)"
| "create_all orc ((element, element_name) # cs) s =
     (case addElement orc element element_name s of
        (ok, s1) \<Rightarrow>
          (case create_all orc cs s1 of
             (rs, s2) \<Rightarrow> ((ok, new_handle orc element element_name s) # rs, s2)))"

subsection \<open>Validity of the registry\<close>

text \<open>Every object of the store lies at an address that was handed out.\<close>

definition heap_wf :: "engine \<Rightarrow> bool" where
  "heap_wf e = (\<forall>p. objects e p \<noteq> None \<longrightarrow> 0 < p \<and> p \<le> allocated e)"

text \<open>A stage that exists in the store and whose parent is the given graph.\<close>

definition attached :: "engine \<Rightarrow> ptr \<Rightarrow> ptr \<Rightarrow> bool" where
  "attached e pipe el =
     (el \<noteq> NULL \<and> pipe \<noteq> NULL \<and>
      (case objects e el of Some (Element f n par) \<Rightarrow> par = pipe | _ \<Rightarrow> False))"

definition registry_valid :: "GStreamPipeline \<Rightarrow> bool" where
  "registry_valid s =
     (\<forall>name h. m_pipeline_map s name = Some h \<longrightarrow> attached (gst s) (m_pipeline s) (fst h))"

definition graph_ok :: "GStreamPipeline \<Rightarrow> bool" where
  "graph_ok s = (heap_wf (gst s) \<and> registry_valid s)"

text \<open>An engine step that keeps the store well formed and every attached stage as it is.\<close>

definition keeps :: "engine \<Rightarrow> engine \<Rightarrow> bool" where
  "keeps e e' =
     (heap_wf e \<longrightarrow>
        heap_wf e' \<and>
        (\<forall>p f n b. b \<noteq> NULL \<longrightarrow> objects e p = Some (Element f n b)
                    \<longrightarrow> objects e' p = Some (Element f n b)))"

text \<open>
  The operations on one graph: the public methods, and the engine calling
  \<^verbatim>\<open>onPadAdded\<close> back.
\<close>

datatype operation =
    AddElement string string
  | AddElementCaps string string string
  | LinkElementsByName "string list"
  | SetElementSignal string string nat ptr
  | SetElementProperty string string gvalue
  | GetElementByName string
  | SetElementState string GstState
  | SetPipelineState GstState
  | AttachToBin
  | PadAdded ptr pad ptr

fun run_op :: "gst_env \<Rightarrow> operation \<Rightarrow> GStreamPipeline \<Rightarrow> GStreamPipeline" where
  "run_op orc (AddElement f n) s = snd (addElement orc f n s)"
| "run_op orc (AddElementCaps f n c) s = snd (addElement_caps orc f n c s)"
| "run_op orc (LinkElementsByName ns) s = snd (linkElementsByName orc ns s)"
| "run_op orc (SetElementSignal n sig cb ud) s = snd (setElementSignal n sig cb ud s)"
| "run_op orc (SetElementProperty n k v) s = snd (setElementProperty n k v s)"
| "run_op orc (GetElementByName n) s = snd (getElementByName n s)"
| "run_op orc (SetElementState n st) s = snd (setElementState orc n st s)"
| "run_op orc (SetPipelineState st) s = snd (setPipelineState orc st s)"
| "run_op orc AttachToBin s = snd (attachToBin orc s)"
| "run_op orc (PadAdded el pad data) s = s\<lparr>gst := onPadAdded orc el pad data (gst s)\<rparr>"

fun run_ops :: "gst_env \<Rightarrow> operation list \<Rightarrow> GStreamPipeline \<Rightarrow> GStreamPipeline" where
  "run_ops orc [] s = s"
| "run_ops orc (x # xs) s = run_ops orc xs (run_op orc x s)"

subsection \<open>A concrete engine\<close>

text \<open>
  An engine that knows the plugins of \<^verbatim>\<open>runSimplePipeline\<close>, accepts every child,
  parses the one caps string used there, links two pads when the upstream pad is still
  free, and whose filter stage keeps a reference to the filter. It is used to run the code
  on concrete inputs.
\<close>

definition gst_demo :: gst_env where
  "gst_demo =
     \<lparr>factory_exists = (\<lambda>f. f \<in> set [''pipeline'', ''bin'', ''rtspsrc'', ''rtph264depay'',
                                      ''h264parse'', ''videoconvert'', ''autovideosink'']),
      bin_accepts = (\<lambda>e b el. True),
      caps_parses = (\<lambda>c. c = ''video/x-raw, format=(string)I420''),
      can_link = (\<lambda>e a b. \<not> gst_pad_is_linked e (Some (a, ''src''))),
      can_link_filtered = (\<lambda>e a b c. \<not> gst_pad_is_linked e (Some (a, ''src''))),
      can_link_pads = (\<lambda>e p q. \<not> gst_pad_is_linked e (Some p)),
      filter_kept = True,
      state_change = (\<lambda>e p st. GST_STATE_CHANGE_ASYNC)\<rparr>"

definition demo_graph :: GStreamPipeline where
  "demo_graph = GStreamPipeline_new gst_demo ''RTSP_SERVER'' True True gst_start"

text \<open>
  The graph of \<^verbatim>\<open>runSimplePipeline\<close> cut down to four stages: the source, a depayloader,
  a converter declared with a caps filter, and a sink.
\<close>

definition demo_ops :: "operation list" where
  "demo_ops =
     [AddElement ''rtspsrc'' ''rtspsrc'',
      AddElement ''rtph264depay'' ''videodepay'',
      AddElementCaps ''videoconvert'' ''videoconvert'' ''video/x-raw, format=(string)I420'',
      AddElement ''autovideosink'' ''videosink'']"

definition demo_stages :: GStreamPipeline where
  "demo_stages = run_ops gst_demo demo_ops demo_graph"

text \<open>
  The same two names linked twice in a row; the same with an engine that lets an upstream
  stage take part in several filtered links (a stage with request pads); and one link by an
  engine whose filter stage keeps no reference to the filter.
\<close>

definition link_twice :: "(bool \<times> GStreamPipeline) \<times> (bool \<times> GStreamPipeline)" where
  "link_twice =
     (let r1 = linkElementsByName gst_demo [''videoconvert'', ''videosink''] demo_stages;
          r2 = linkElementsByName gst_demo [''videoconvert'', ''videosink''] (snd r1)
      in (r1, r2))"

definition link_twice_permissive :: "(bool \<times> GStreamPipeline) \<times> (bool \<times> GStreamPipeline)" where
  "link_twice_permissive =
     (let orc = gst_demo\<lparr>can_link_filtered := (\<lambda>e a b c. True)\<rparr>;
          r1 = linkElementsByName orc [''videoconvert'', ''videosink''] demo_stages;
          r2 = linkElementsByName orc [''videoconvert'', ''videosink''] (snd r1)
      in (r1, r2))"

definition link_once_unkept :: "bool \<times> GStreamPipeline" where
  "link_once_unkept =
     linkElementsByName (gst_demo\<lparr>filter_kept := False\<rparr>) [''videoconvert'', ''videosink'']
       demo_stages"

text \<open>
  The callback invoked for two pads of the source \<open>rtspsrc\<close> (stage 3) against the target
  \<open>videodepay\<close> (stage 4): the states after the first and after the second invocation.
\<close>

definition pad_added_twice :: "engine \<times> engine" where
  "pad_added_twice =
     (let e1 = onPadAdded gst_demo 3 (3, ''recv_rtp_src_0'') 4 (gst demo_stages);
          e2 = onPadAdded gst_demo 3 (3, ''recv_rtp_src_1'') 4 e1
      in (e1, e2))"




section \<open>Properties\<close>

lemmas engine_defs = g_new_def g_unref_def record_call_def GST_IS_ELEMENT_def GST_IS_CAPS_def
  gst_element_factory_make_def gst_bin_add_def gst_object_unref_def gst_caps_from_string_def
  gst_caps_unref_def gst_element_link_def gst_element_link_filtered_def gst_element_link_pads_def
  gst_element_get_static_pad_def gst_pad_is_linked_def gst_pad_get_name_def g_object_set_def
  g_signal_connect_def gst_element_set_state_def g_main_loop_new_def gst_pipeline_new_def
  gst_bin_new_def gst_start_def

lemmas class_defs = addElement_def addElement_caps_def createElement_def linkElement_def
  setElementSignal_def setElementProperty_def getElementByName_def setElementState_def
  setPipelineState_def attachToBin_def onPadAdded_def

lemmas demo_defs = demo_graph_def GStreamPipeline_new_def gst_demo_def

subsection \<open>The concrete graph, evaluated\<close>

lemma demo_stages_registry:
  "m_pipeline_map demo_stages =
     [''rtspsrc'' \<mapsto> (3, NULL), ''videodepay'' \<mapsto> (4, NULL), ''videoconvert'' \<mapsto> (5, 6),
      ''videosink'' \<mapsto> (7, NULL)]"
  by (simp add: demo_stages_def demo_ops_def demo_defs engine_defs class_defs Let_def eval_nat_numeral)


lemma demo_stages_gst:
  "gst demo_stages =
     \<lparr>objects = [1 \<mapsto> MainLoop, 2 \<mapsto> Element ''pipeline'' ''RTSP_SERVER'' NULL,
                 3 \<mapsto> Element ''rtspsrc'' ''rtspsrc'' 2,
                 4 \<mapsto> Element ''rtph264depay'' ''videodepay'' 2,
                 5 \<mapsto> Element ''videoconvert'' ''videoconvert'' 2,
                 6 \<mapsto> Caps ''video/x-raw, format=(string)I420'',
                 7 \<mapsto> Element ''autovideosink'' ''videosink'' 2],
      refcount = (\<lambda>_. 0)(1 := 1, 2 := 1, 3 := 1, 4 := 1, 5 := 1, 6 := 1, 7 := 1),
      allocated = 7, links = [], pad_refs = (\<lambda>_. 0),
      calls = [MainLoopNew 1, MakeElement ''pipeline'' ''RTSP_SERVER'' 2,
               MakeElement ''rtspsrc'' ''rtspsrc'' 3, BinAdd 2 3 True,
               MakeElement ''rtph264depay'' ''videodepay'' 4, BinAdd 2 4 True,
               MakeElement ''videoconvert'' ''videoconvert'' 5, BinAdd 2 5 True,
               CapsFromString ''video/x-raw, format=(string)I420'' 6,
               MakeElement ''autovideosink'' ''videosink'' 7, BinAdd 2 7 True]\<rparr>"
  by (simp add: demo_stages_def demo_ops_def demo_defs engine_defs class_defs Let_def eval_nat_numeral)

lemma demo_stages_graph_ok_run:
  "demo_stages = run_ops gst_demo demo_ops (GStreamPipeline_new gst_demo ''RTSP_SERVER'' True True gst_start)"
  by (simp add: demo_stages_def demo_graph_def)

subsection \<open>Linking a sequence of names\<close>

lemma link_attempts_append: "link_attempts (xs @ ys) = link_attempts xs @ link_attempts ys"
  by (induction xs rule: link_attempts.induct) auto

lemma linkElementsByName_refines:
  "linkElementsByName orc ns s = linkSequence_spec orc (zip ns (tl ns)) s"
  by (induction orc ns s rule: linkElementsByName.induct)
     (auto simp: linkPair_by_name_def split: option.splits prod.splits)

lemma linkElement_links:
  "linkElement orc el caps ch a b e = (ok, e1) \<Longrightarrow> prefix (links e) (links e1)"
  by (auto simp: linkElement_def gst_element_link_filtered_def gst_element_link_def
       gst_caps_unref_def g_unref_def record_call_def Let_def split: if_splits)

lemma linkElementsByName_links:
  "prefix (links (gst s)) (links (gst (snd (linkElementsByName orc ns s))))"
proof (induction orc ns s rule: linkElementsByName.induct)
  case (3 orc n c rest s)
  show ?case
  proof (cases "m_pipeline_map s n")
    case None
    then show ?thesis by simp
  next
    case (Some pp)
    show ?thesis
    proof (cases "m_pipeline_map s c")
      case None
      with Some show ?thesis by simp
    next
      case cp: (Some cp)
      obtain ok e1 where le: "linkElement orc (fst pp) (snd pp) (fst cp) n c (gst s) = (ok, e1)"
        by (cases "linkElement orc (fst pp) (snd pp) (fst cp) n c (gst s)")
      from linkElement_links[OF le] have p1: "prefix (links (gst s)) (links e1)" .
      show ?thesis
      proof (cases ok)
        case False
        with Some cp le p1 show ?thesis by simp
      next
        case True
        from "3.IH"[OF Some cp le[symmetric]] True
        have "prefix (links e1) (links (gst (snd (linkElementsByName orc (c # rest) (s\<lparr>gst := e1\<rparr>)))))"
          by simp
        with p1 Some cp le True show ?thesis by (auto intro: prefix_order.trans)
      qed
    qed
  qed
qed simp_all

lemma linkElement_attempts:
  "linkElement orc el caps ch a b e = (ok, e1) \<Longrightarrow>
     (link_attempts (calls e1) = link_attempts (calls e) @ [(el, ch)]
      \<or> (\<not> ok \<and> link_attempts (calls e1) = link_attempts (calls e)))"
  by (auto simp: linkElement_def gst_element_link_filtered_def gst_element_link_def
       gst_caps_unref_def g_unref_def record_call_def Let_def link_attempts_append
       split: if_splits)

lemma linkElementsByName_registry:
  "m_pipeline_map (snd (linkElementsByName orc ns s)) = m_pipeline_map s"
  by (induction orc ns s rule: linkElementsByName.induct) (auto split: option.splits prod.splits)

lemma resolve_gst: "resolve (s\<lparr>gst := e\<rparr>) p = resolve s p"
  by (simp add: resolve_def getElementByName_def split: option.splits)

lemma linkElementsByName_attempts:
  "\<exists>k \<le> length ns - 1.
     link_attempts (calls (gst (snd (linkElementsByName orc ns s)))) =
       link_attempts (calls (gst s)) @ map (resolve s) (take k (zip ns (tl ns)))
     \<and> (fst (linkElementsByName orc ns s) \<longrightarrow> k = length ns - 1)"
proof (induction orc ns s rule: linkElementsByName.induct)
  case (3 orc n c rest s)
  show ?case
  proof (cases "m_pipeline_map s n")
    case None
    then show ?thesis by (intro exI[of _ 0]) simp
  next
    case (Some pp)
    show ?thesis
    proof (cases "m_pipeline_map s c")
      case None
      with Some show ?thesis by (intro exI[of _ 0]) simp
    next
      case cp: (Some cp)
      obtain ok e1 where le: "linkElement orc (fst pp) (snd pp) (fst cp) n c (gst s) = (ok, e1)"
        by (cases "linkElement orc (fst pp) (snd pp) (fst cp) n c (gst s)")
      have res: "resolve s (n, c) = (fst pp, fst cp)"
        using Some cp by (simp add: resolve_def getElementByName_def)
      show ?thesis
      proof (cases ok)
        case False
        from linkElement_attempts[OF le] False
        consider "link_attempts (calls e1) = link_attempts (calls (gst s)) @ [(fst pp, fst cp)]"
          | "link_attempts (calls e1) = link_attempts (calls (gst s))" by blast
        then show ?thesis
        proof cases
          case 1
          with Some cp le False res show ?thesis by (intro exI[of _ 1]) simp
        next
          case 2
          with Some cp le False res show ?thesis by (intro exI[of _ 0]) simp
        qed
      next
        case True
        from linkElement_attempts[OF le] True
        have a1: "link_attempts (calls e1) = link_attempts (calls (gst s)) @ [(fst pp, fst cp)]"
          by blast
        from "3.IH"[OF Some cp le[symmetric]] True
        obtain k where k: "k \<le> length (c # rest) - 1"
          "link_attempts (calls (gst (snd (linkElementsByName orc (c # rest) (s\<lparr>gst := e1\<rparr>))))) =
             link_attempts (calls e1) @ map (resolve s) (take k (zip (c # rest) (tl (c # rest))))"
          "fst (linkElementsByName orc (c # rest) (s\<lparr>gst := e1\<rparr>)) \<longrightarrow> k = length (c # rest) - 1"
          by (auto simp: resolve_gst[abs_def])
        show ?thesis
          using Some cp le True res a1 k
          by (intro exI[of _ "Suc k"]) (cases rest; simp)
      qed
    qed
  qed
qed simp_all

text \<open>
  C3. \<^verbatim>\<open>linkElementsByName\<close> links exactly the consecutive pairs of the given names, in
  index order, and stops at the first pair whose lookup or link fails, returning that
  failure: it is the specification's \<open>linkSequence_spec\<close> run on the list of consecutive
  pairs. The link attempts it adds to the engine's trace are the first \<open>k\<close> consecutive
  pairs, for some \<open>k\<close>, and all \<open>N - 1\<close> of them when it returns success. Links made before
  a failure stay in place (the list of links only grows). On an empty or a one-element
  sequence it returns success and leaves the state as it was.
\<close>

theorem linkElementsByName_consecutive_pairs:
  "linkElementsByName orc ns s = linkSequence_spec orc (zip ns (tl ns)) s
   \<and> (\<exists>k \<le> length ns - 1.
        link_attempts (calls (gst (snd (linkElementsByName orc ns s)))) =
          link_attempts (calls (gst s)) @ map (resolve s) (take k (zip ns (tl ns)))
        \<and> (fst (linkElementsByName orc ns s) \<longrightarrow> k = length ns - 1))
   \<and> prefix (links (gst s)) (links (gst (snd (linkElementsByName orc ns s))))
   \<and> linkElementsByName orc [] s = (True, s)
   \<and> linkElementsByName orc [n] s = (True, s)"
  using linkElementsByName_refines [of orc ns s] linkElementsByName_attempts [of ns orc s]
    linkElementsByName_links [of s orc ns]
  by simp

lemma demo_link_result:
  "fst (linkElementsByName gst_demo [''videodepay'', ''videoconvert'', ''videosink''] demo_stages)"
  by (simp add: demo_stages_registry demo_stages_gst linkElement_def gst_demo_def engine_defs Let_def)

theorem linkElementsByName_consecutive_pairs_witness:
  "fst (linkElementsByName gst_demo [''videodepay'', ''videoconvert'', ''videosink''] demo_stages)
   \<and> link_attempts (calls (gst (snd (linkElementsByName gst_demo
          [''videodepay'', ''videoconvert'', ''videosink''] demo_stages)))) = [(4, 5), (5, 7)]"
  using linkElementsByName_consecutive_pairs
    [of gst_demo "[''videodepay'', ''videoconvert'', ''videosink'']" demo_stages]
    demo_link_result
  by (auto simp: resolve_def getElementByName_def demo_stages_registry demo_stages_gst)

subsection \<open>Operations that leave the registry alone\<close>

lemma linkElementsByName_pipeline:
  "m_pipeline (snd (linkElementsByName orc ns s)) = m_pipeline s"
  by (induction orc ns s rule: linkElementsByName.induct) (auto split: option.splits prod.splits)

text \<open>
  C9. For a name that is not in the registry, \<^verbatim>\<open>setElementProperty\<close> returns false and
  the whole state, the registry mapping included, is as before.
\<close>

theorem setElementProperty_unknown_name:
  "m_pipeline_map s element_name = None \<Longrightarrow>
     setElementProperty element_name property_name property_value s = (False, s)"
  by (simp add: setElementProperty_def)

theorem setElementProperty_unknown_name_witness:
  "m_pipeline_map demo_stages ''missing'' = None
   \<and> setElementProperty ''missing'' ''k'' (GInt 0) demo_stages = (False, demo_stages)"
  using setElementProperty_unknown_name [of demo_stages "''missing''" "''k''" "GInt 0"]
  by (simp add: demo_stages_registry)

text \<open>
  C10. Linking a sequence, setting a property, connecting a signal, setting a stage's
  state and looking a name up all return the registry mapping they were given, on every
  input: no entry is added, removed or replaced by them.
\<close>

theorem registry_untouched_outside_create:
  "m_pipeline_map (snd (linkElementsByName orc ns s)) = m_pipeline_map s
   \<and> m_pipeline_map (snd (setElementProperty n k v s)) = m_pipeline_map s
   \<and> m_pipeline_map (snd (setElementSignal n sig cb ud s)) = m_pipeline_map s
   \<and> m_pipeline_map (snd (setElementState orc n st s)) = m_pipeline_map s
   \<and> m_pipeline_map (snd (getElementByName n s)) = m_pipeline_map s"
  by (simp add: linkElementsByName_registry setElementProperty_def setElementSignal_def
      setElementState_def getElementByName_def split: option.splits prod.splits)

subsection \<open>What the engine's calls keep\<close>

lemma keeps_refl: "keeps e e"
  by (simp add: keeps_def)

lemma keeps_trans: "keeps a b \<Longrightarrow> keeps b c \<Longrightarrow> keeps a c"
  by (simp add: keeps_def)

lemma keeps_record_call: "keeps e (record_call c e)"
  by (simp add: keeps_def record_call_def heap_wf_def)

lemma keeps_same_objects:
  "objects e' = objects e \<Longrightarrow> allocated e' = allocated e \<Longrightarrow> keeps e e'"
  by (simp add: keeps_def heap_wf_def)

lemma keeps_g_new: "keeps e (snd (g_new ob e))"
  by (auto simp: keeps_def heap_wf_def g_new_def Let_def)

lemma keeps_factory_make: "keeps e (snd (gst_element_factory_make orc f n e))"
  by (auto simp: keeps_def heap_wf_def gst_element_factory_make_def g_new_def record_call_def Let_def)

lemma keeps_caps_from_string: "keeps e (snd (gst_caps_from_string orc c e))"
  by (auto simp: keeps_def heap_wf_def gst_caps_from_string_def g_new_def record_call_def Let_def)

lemma keeps_bin_add: "keeps e (snd (gst_bin_add orc bin el e))"
  by (auto simp: keeps_def heap_wf_def gst_bin_add_def record_call_def
      split: option.splits gobject.splits)

lemma keeps_link: "keeps e (snd (gst_element_link orc a b e))"
  by (auto simp: keeps_def heap_wf_def gst_element_link_def record_call_def Let_def)

lemma keeps_link_filtered: "keeps e (snd (gst_element_link_filtered orc a b c e))"
  by (auto simp: keeps_def heap_wf_def gst_element_link_filtered_def record_call_def Let_def)

lemma keeps_link_pads: "keeps e (snd (gst_element_link_pads orc a an b bn e))"
  by (auto simp: keeps_def heap_wf_def gst_element_link_pads_def record_call_def Let_def)

lemma keeps_set_state: "keeps e (snd (gst_element_set_state orc p st e))"
  by (auto simp: keeps_def heap_wf_def gst_element_set_state_def record_call_def Let_def)

lemma keeps_set_state_eq: "gst_element_set_state orc p st e = (r, e1) \<Longrightarrow> keeps e e1"
  using keeps_set_state[of e orc p st] by simp

lemma keeps_unref:
  "(heap_wf e \<Longrightarrow> \<forall>f n b. objects e p = Some (Element f n b) \<longrightarrow> b = NULL)
     \<Longrightarrow> keeps e (g_unref p e)"
  by (auto simp: keeps_def heap_wf_def g_unref_def)

lemma factory_make_result:
  "gst_element_factory_make orc f n e = (p, e1) \<Longrightarrow>
     (p = NULL \<and> objects e1 = objects e)
     \<or> (p = allocated e + 1 \<and> objects e1 = (objects e)(p \<mapsto> Element f n NULL))"
  by (auto simp: gst_element_factory_make_def g_new_def record_call_def Let_def split: if_splits)

lemma bin_add_refused:
  "gst_bin_add orc bin el e = (False, e1) \<Longrightarrow> objects e1 = objects e \<and> allocated e1 = allocated e"
  by (auto simp: gst_bin_add_def record_call_def split: option.splits gobject.splits if_splits)

lemma createElement_result:
  "createElement orc f n pipe e = (p, e1) \<Longrightarrow> p \<noteq> NULL \<Longrightarrow>
     pipe \<noteq> NULL \<and> objects e1 p = Some (Element f n pipe) \<and> p = allocated e1
     \<and> p = allocated e + 1"
  by (auto simp: createElement_def gst_element_factory_make_def gst_bin_add_def g_new_def
      record_call_def gst_object_unref_def Let_def
      split: if_splits prod.splits option.splits gobject.splits)

lemma createElement_keeps: "keeps e (snd (createElement orc f n pipe e))"
proof -
  obtain out e1 where fm: "gst_element_factory_make orc f n e = (out, e1)"
    by (cases "gst_element_factory_make orc f n e")
  obtain added e2 where ba: "gst_bin_add orc pipe out e1 = (added, e2)"
    by (cases "gst_bin_add orc pipe out e1")
  have k1: "keeps e e1" using keeps_factory_make[of e orc f n] fm by simp
  have k2: "keeps e1 e2" using keeps_bin_add[of e1 orc pipe out] ba by simp
  have k3: "\<not> added \<Longrightarrow> out \<noteq> NULL \<Longrightarrow> keeps e2 (gst_object_unref out e2)"
  proof -
    assume na: "\<not> added" and nn: "out \<noteq> NULL"
    from fm nn have "objects e1 out = Some (Element f n NULL)"
      by (auto simp: gst_element_factory_make_def g_new_def record_call_def Let_def split: if_splits)
    moreover from ba na have "objects e2 = objects e1"
      by (auto simp: gst_bin_add_def record_call_def split: option.splits gobject.splits if_splits)
    ultimately have "keeps e2 (g_unref out e2)" by (intro keeps_unref) simp
    then show ?thesis
      unfolding gst_object_unref_def using keeps_record_call keeps_trans by blast
  qed
  show ?thesis
    using fm ba k1 k2 k3
    by (auto simp: createElement_def keeps_refl intro: keeps_trans)
qed

lemma linkElement_keeps: "keeps e (snd (linkElement orc el caps ch a b e))"
proof -
  obtain ok e1 where lf: "gst_element_link_filtered orc el ch caps e = (ok, e1)"
    by (cases "gst_element_link_filtered orc el ch caps e")
  have k1: "keeps e e1" using keeps_link_filtered[of e orc el ch caps] lf by simp
  have ob: "objects e1 = objects e"
    using lf by (auto simp: gst_element_link_filtered_def record_call_def Let_def)
  have k2: "GST_IS_CAPS e caps \<Longrightarrow> keeps e1 (gst_caps_unref caps e1)"
  proof -
    assume "GST_IS_CAPS e caps"
    then have "\<forall>f n b. objects e1 caps = Some (Element f n b) \<longrightarrow> b = NULL"
      using ob by (auto simp: GST_IS_CAPS_def split: option.splits gobject.splits)
    then have "keeps e1 (g_unref caps e1)" by (rule keeps_unref)
    then show ?thesis
      unfolding gst_caps_unref_def using keeps_record_call keeps_trans by blast
  qed
  have k3: "keeps e (snd (gst_element_link orc el ch e))" by (rule keeps_link)
  show ?thesis
    using lf k1 k2 k3
    by (auto simp: linkElement_def keeps_refl split: prod.splits intro: keeps_trans)
qed


lemma attached_iff:
  "attached e pipe el =
     (el \<noteq> NULL \<and> pipe \<noteq> NULL \<and> (\<exists>f n. objects e el = Some (Element f n pipe)))"
  by (auto simp: attached_def split: option.splits gobject.splits)

lemma attached_keeps:
  "heap_wf e \<Longrightarrow> keeps e e' \<Longrightarrow> attached e pipe el \<Longrightarrow> attached e' pipe el"
  by (auto simp: attached_iff keeps_def)

lemma graph_ok_cong:
  "graph_ok s \<Longrightarrow> m_pipeline_map s' = m_pipeline_map s \<Longrightarrow> m_pipeline s' = m_pipeline s
     \<Longrightarrow> keeps (gst s) (gst s') \<Longrightarrow> graph_ok s'"
  unfolding graph_ok_def registry_valid_def
  using attached_keeps[of "gst s" "gst s'"] by (auto simp: keeps_def)

lemma graph_ok_keeps:
  "graph_ok s \<Longrightarrow> keeps (gst s) e' \<Longrightarrow> graph_ok (s\<lparr>gst := e'\<rparr>)"
  by (rule graph_ok_cong[of s]) simp_all

lemma createElement_attached:
  "createElement orc f n pipe e = (p, e1) \<Longrightarrow> p \<noteq> NULL \<Longrightarrow> attached e1 pipe p"
proof -
  assume a: "createElement orc f n pipe e = (p, e1)" and nn: "p \<noteq> NULL"
  from createElement_result[OF a nn]
  have "pipe \<noteq> NULL \<and> objects e1 p = Some (Element f n pipe)" by blast
  with nn show ?thesis unfolding attached_iff by blast
qed

lemma createElement_is_element:
  "createElement orc f n pipe e = (p, e1) \<Longrightarrow> GST_IS_ELEMENT e1 p = (p \<noteq> NULL)"
  using createElement_result[of orc f n pipe e p e1] by (auto simp: GST_IS_ELEMENT_def)

lemma addElement_graph_ok: "graph_ok s \<Longrightarrow> graph_ok (snd (addElement orc f n s))"
proof -
  assume ok: "graph_ok s"
  obtain p e1 where ce: "createElement orc f n (m_pipeline s) (gst s) = (p, e1)"
    by (cases "createElement orc f n (m_pipeline s) (gst s)")
  have k: "keeps (gst s) e1" using createElement_keeps[of "gst s" orc f n "m_pipeline s"] ce by simp
  have g1: "graph_ok (s\<lparr>gst := e1\<rparr>)" using graph_ok_keeps[OF ok k] .
  show ?thesis
  proof (cases "p = NULL")
    case True
    with ce g1 show ?thesis by (simp add: addElement_def GST_IS_ELEMENT_def)
  next
    case False
    from createElement_attached[OF ce False] have at: "attached e1 (m_pipeline s) p" .
    from createElement_is_element[OF ce] False have "GST_IS_ELEMENT e1 p" by simp
    with ce g1 at show ?thesis
      by (auto simp: addElement_def graph_ok_def registry_valid_def)
  qed
qed

lemma addElement_caps_graph_ok: "graph_ok s \<Longrightarrow> graph_ok (snd (addElement_caps orc f n c s))"
proof -
  assume ok: "graph_ok s"
  obtain p e1 where ce: "createElement orc f n (m_pipeline s) (gst s) = (p, e1)"
    by (cases "createElement orc f n (m_pipeline s) (gst s)")
  obtain cp e2 where cs: "gst_caps_from_string orc c e1 = (cp, e2)"
    by (cases "gst_caps_from_string orc c e1")
  have k1: "keeps (gst s) e1" using createElement_keeps[of "gst s" orc f n "m_pipeline s"] ce by simp
  have k2: "keeps e1 e2" using keeps_caps_from_string[of e1 orc c] cs by simp
  have w1: "heap_wf e1" using ok k1 by (simp add: graph_ok_def keeps_def)
  have g2: "graph_ok (s\<lparr>gst := e2\<rparr>)" using graph_ok_keeps[OF ok keeps_trans[OF k1 k2]] .
  show ?thesis
  proof (cases "p = NULL")
    case True
    with ce cs g2 show ?thesis by (simp add: addElement_caps_def GST_IS_ELEMENT_def)
  next
    case False
    from createElement_attached[OF ce False] have "attached e1 (m_pipeline s) p" .
    then have at: "attached e2 (m_pipeline s) p" using attached_keeps[OF w1 k2] by simp
    with ce cs g2 show ?thesis
      by (auto simp: addElement_caps_def graph_ok_def registry_valid_def)
  qed
qed

lemma linkElementsByName_keeps: "keeps (gst s) (gst (snd (linkElementsByName orc ns s)))"
proof (induction orc ns s rule: linkElementsByName.induct)
  case (3 orc n c rest s)
  show ?case
  proof (cases "m_pipeline_map s n")
    case None
    then show ?thesis by (simp add: keeps_refl)
  next
    case (Some pp)
    show ?thesis
    proof (cases "m_pipeline_map s c")
      case None
      with Some show ?thesis by (simp add: keeps_refl)
    next
      case cp: (Some cp)
      obtain ok e1 where le: "linkElement orc (fst pp) (snd pp) (fst cp) n c (gst s) = (ok, e1)"
        by (cases "linkElement orc (fst pp) (snd pp) (fst cp) n c (gst s)")
      have k1: "keeps (gst s) e1"
        using linkElement_keeps[of "gst s" orc "fst pp" "snd pp" "fst cp" n c] le by simp
      show ?thesis
      proof (cases ok)
        case False
        with Some cp le k1 show ?thesis by simp
      next
        case True
        from "3.IH"[OF Some cp le[symmetric]] True
        have "keeps e1 (gst (snd (linkElementsByName orc (c # rest) (s\<lparr>gst := e1\<rparr>))))" by simp
        with k1 Some cp le True show ?thesis by (auto intro: keeps_trans)
      qed
    qed
  qed
qed (simp_all add: keeps_refl)

lemma attachToBin_keeps: "keeps (gst s) (gst (snd (attachToBin orc s)))"
proof -
  obtain bin e1 where bn: "gst_bin_new orc (gst s) = (bin, e1)"
    by (cases "gst_bin_new orc (gst s)")
  obtain added e2 where ba: "gst_bin_add orc bin (m_pipeline s) e1 = (added, e2)"
    by (cases "gst_bin_add orc bin (m_pipeline s) e1")
  have k1: "keeps (gst s) e1"
    using keeps_factory_make[of "gst s" orc "''bin''" "[]"] bn by (simp add: gst_bin_new_def)
  have k2: "keeps e1 e2" using keeps_bin_add[of e1 orc bin "m_pipeline s"] ba by simp
  have k3: "\<not> added \<Longrightarrow> keeps e2 (gst_object_unref bin e2)"
  proof -
    assume na: "\<not> added"
    have ob: "objects e2 = objects e1" "allocated e2 = allocated e1"
      using bin_add_refused[of orc bin "m_pipeline s" e1 e2] ba na by simp_all
    have "heap_wf e2 \<Longrightarrow> \<forall>f n b. objects e2 bin = Some (Element f n b) \<longrightarrow> b = NULL"
    proof -
      assume w: "heap_wf e2"
      from factory_make_result[of orc "''bin''" "[]" "gst s" bin e1] bn
      consider "bin = NULL" | "objects e1 bin = Some (Element ''bin'' [] NULL)"
        by (auto simp: gst_bin_new_def)
      then show ?thesis
      proof cases
        case 1
        with w have "objects e2 bin = None" by (auto simp: heap_wf_def)
        then show ?thesis by simp
      next
        case 2
        with ob show ?thesis by simp
      qed
    qed
    then have "keeps e2 (g_unref bin e2)" by (rule keeps_unref)
    then show ?thesis
      unfolding gst_object_unref_def using keeps_record_call keeps_trans by blast
  qed
  show ?thesis
    using bn ba k1 k2 k3
    by (auto simp: attachToBin_def keeps_refl intro: keeps_trans)
qed

lemma keeps_get_static_pad: "keeps e (snd (gst_element_get_static_pad el name e))"
  by (auto simp: keeps_def heap_wf_def gst_element_get_static_pad_def)

lemma onPadAdded_keeps: "keeps e (onPadAdded orc el pad data e)"
proof -
  obtain sp e1 where g: "gst_element_get_static_pad data ''sink'' e = (sp, e1)"
    by (cases "gst_element_get_static_pad data ''sink'' e")
  have k1: "keeps e e1" using keeps_get_static_pad[of e data "''sink''"] g by simp
  have k2: "keeps e1 (snd (gst_element_link_pads orc el (gst_pad_get_name pad) data ''sink'' e1))"
    by (rule keeps_link_pads)
  from g k1 k2 show ?thesis
    by (auto simp: onPadAdded_def intro: keeps_trans)
qed

lemma run_op_registry_pipeline: "m_pipeline (run_op orc x s) = m_pipeline s"
  by (cases x)
     (auto simp: addElement_def addElement_caps_def linkElementsByName_pipeline
        setElementSignal_def setElementProperty_def getElementByName_def setElementState_def
        setPipelineState_def attachToBin_def split: prod.splits option.splits)

lemma run_op_graph_ok: "graph_ok s \<Longrightarrow> graph_ok (run_op orc x s)"
proof (cases x)
  case (AddElement f n)
  assume "graph_ok s" with AddElement show ?thesis by (simp add: addElement_graph_ok)
next
  case (AddElementCaps f n c)
  assume "graph_ok s" with AddElementCaps show ?thesis by (simp add: addElement_caps_graph_ok)
next
  case (LinkElementsByName ns)
  assume "graph_ok s" with LinkElementsByName show ?thesis
    by (auto intro!: graph_ok_cong[of s]
        simp: linkElementsByName_registry linkElementsByName_pipeline linkElementsByName_keeps)
next
  case (SetElementSignal n sig cb ud)
  assume "graph_ok s" with SetElementSignal show ?thesis
    by (auto intro!: graph_ok_cong[of s] simp: setElementSignal_def g_signal_connect_def
        keeps_refl keeps_record_call split: option.splits)
next
  case (SetElementProperty n k v)
  assume "graph_ok s" with SetElementProperty show ?thesis
    by (auto intro!: graph_ok_cong[of s] simp: setElementProperty_def g_object_set_def
        keeps_refl keeps_record_call split: option.splits)
next
  case (GetElementByName n)
  assume "graph_ok s" with GetElementByName show ?thesis
    by (auto simp: getElementByName_def split: option.splits)
next
  case (SetElementState n st)
  assume g: "graph_ok s"
  with SetElementState show ?thesis
    by (auto intro!: graph_ok_cong[of s] simp: setElementState_def keeps_refl
        keeps_set_state_eq split: option.splits prod.splits)
next
  case (SetPipelineState st)
  assume g: "graph_ok s"
  with SetPipelineState show ?thesis
    by (auto intro!: graph_ok_cong[of s] simp: setPipelineState_def keeps_set_state_eq
        split: prod.splits)
next
  case AttachToBin
  assume g: "graph_ok s"
  have "m_pipeline_map (snd (attachToBin orc s)) = m_pipeline_map s"
    "m_pipeline (snd (attachToBin orc s)) = m_pipeline s"
    by (auto simp: attachToBin_def split: prod.splits)
  with g AttachToBin show ?thesis
    using attachToBin_keeps[of s orc] by (auto intro: graph_ok_cong[of s])
next
  case (PadAdded el pad data)
  assume g: "graph_ok s"
  have "keeps (gst s) (onPadAdded orc el pad data (gst s))"
    by (rule onPadAdded_keeps)
  with g PadAdded show ?thesis by (auto intro: graph_ok_cong[of s])
qed

lemma run_ops_graph_ok: "graph_ok s \<Longrightarrow> graph_ok (run_ops orc xs s)"
  by (induction xs arbitrary: s) (simp_all add: run_op_graph_ok)

lemma new_graph_ok: "graph_ok (GStreamPipeline_new orc name ig cml gst_start)"
proof -
  have w0: "heap_wf gst_start" by (simp add: heap_wf_def gst_start_def)
  have k1: "keeps gst_start (snd (g_main_loop_new gst_start))"
    using keeps_g_new[of gst_start MainLoop] keeps_record_call keeps_trans
    by (auto simp: g_main_loop_new_def split: prod.splits)
  have k2: "keeps e (snd (gst_pipeline_new orc name e))" for e
    by (simp add: gst_pipeline_new_def keeps_factory_make)
  have "heap_wf (gst (GStreamPipeline_new orc name ig cml gst_start))"
    using w0 k1 k2[of gst_start] k2[of "snd (g_main_loop_new gst_start)"]
    by (auto simp: GStreamPipeline_new_def keeps_def split: prod.splits)
  then show ?thesis
    by (simp add: graph_ok_def registry_valid_def GStreamPipeline_new_def split: prod.splits)
qed

text \<open>
  C8. After any sequence of operations on a newly constructed graph, every entry of the
  registry holds a stage that exists in the engine and is attached to this graph's
  pipeline; a lookup of that name returns this stage, which passes \<^verbatim>\<open>GST_IS_ELEMENT\<close>.
  No handle whose creation or attachment failed is ever stored.
\<close>

theorem registry_handles_valid:
  "s = run_ops orc xs (GStreamPipeline_new orc name ig cml gst_start) \<Longrightarrow>
   m_pipeline_map s k = Some h \<Longrightarrow>
     fst (getElementByName k s) = fst h
     \<and> attached (gst s) (m_pipeline s) (fst h)
     \<and> GST_IS_ELEMENT (gst s) (fst h)"
proof -
  assume s: "s = run_ops orc xs (GStreamPipeline_new orc name ig cml gst_start)"
    and m: "m_pipeline_map s k = Some h"
  from s have "graph_ok s" using run_ops_graph_ok[OF new_graph_ok] by simp
  with m have at: "attached (gst s) (m_pipeline s) (fst h)"
    unfolding graph_ok_def registry_valid_def by blast
  then have "GST_IS_ELEMENT (gst s) (fst h)"
    by (auto simp: attached_iff GST_IS_ELEMENT_def)
  with at m show ?thesis by (simp add: getElementByName_def)
qed

theorem registry_handles_valid_witness:
  "m_pipeline_map demo_stages ''videoconvert'' = Some (5, 6)
   \<and> fst (getElementByName ''videoconvert'' demo_stages) = 5
   \<and> attached (gst demo_stages) (m_pipeline demo_stages) 5
   \<and> GST_IS_ELEMENT (gst demo_stages) 5"
proof -
  have m: "m_pipeline_map demo_stages ''videoconvert'' = Some (5, 6)"
    by (simp add: demo_stages_registry)
  from registry_handles_valid[OF demo_stages_graph_ok_run m] m show ?thesis by simp
qed

subsection \<open>Creating stages and looking them up\<close>

lemma addElement_effect:
  "addElement orc f n s = (ok, s1) \<Longrightarrow>
     ok = (new_handle orc f n s \<noteq> NULL)
     \<and> m_pipeline_map s1 =
         (if ok then (m_pipeline_map s)(n \<mapsto> (new_handle orc f n s, NULL)) else m_pipeline_map s)"
proof -
  assume a: "addElement orc f n s = (ok, s1)"
  obtain p e1 where ce: "createElement orc f n (m_pipeline s) (gst s) = (p, e1)"
    by (cases "createElement orc f n (m_pipeline s) (gst s)")
  from createElement_is_element[OF ce] have "GST_IS_ELEMENT e1 p = (p \<noteq> NULL)" .
  with a ce show ?thesis
    by (auto simp: addElement_def new_handle_def split: if_splits)
qed


lemma create_all_other:
  "create_all orc cs s = (rs, s') \<Longrightarrow> name \<notin> set (map snd cs)
     \<Longrightarrow> m_pipeline_map s' name = m_pipeline_map s name"
proof (induction cs arbitrary: s rs s')
  case Nil
  then show ?case by simp
next
  case (Cons c cs)
  obtain f n where c: "c = (f, n)" by (cases c)
  obtain ok s1 where a: "addElement orc f n s = (ok, s1)" by (cases "addElement orc f n s")
  obtain rs1 s2 where r: "create_all orc cs s1 = (rs1, s2)" by (cases "create_all orc cs s1")
  from Cons.prems c a r have s2: "s' = s2" and nn: "name \<noteq> n" "name \<notin> set (map snd cs)"
    by auto
  from Cons.IH[OF r nn(2)] have "m_pipeline_map s2 name = m_pipeline_map s1 name" .
  moreover from addElement_effect[OF a] nn(1)
  have "m_pipeline_map s1 name = m_pipeline_map s name" by auto
  ultimately show ?case using s2 by simp
qed

lemma create_all_lookup:
  "distinct (map snd cs) \<Longrightarrow> create_all orc cs s = (rs, s') \<Longrightarrow> \<forall>r \<in> set rs. fst r \<Longrightarrow>
     length rs = length cs
     \<and> (\<forall>i < length cs. snd (rs ! i) \<noteq> NULL
                         \<and> fst (getElementByName (snd (cs ! i)) s') = snd (rs ! i))"
proof (induction cs arbitrary: s rs s')
  case Nil
  then show ?case by simp
next
  case (Cons c cs)
  obtain f n where c: "c = (f, n)" by (cases c)
  obtain ok s1 where a: "addElement orc f n s = (ok, s1)" by (cases "addElement orc f n s")
  obtain rs1 s2 where r: "create_all orc cs s1 = (rs1, s2)" by (cases "create_all orc cs s1")
  from Cons.prems c a r have rs: "rs = (ok, new_handle orc f n s) # rs1" and s2: "s' = s2"
    by auto
  from Cons.prems(3) rs have ok: ok and oks: "\<forall>r \<in> set rs1. fst r" by auto
  from Cons.prems(1) c have d: "distinct (map snd cs)" and nin: "n \<notin> set (map snd cs)" by auto
  from Cons.IH[OF d r oks]
  have ih: "length rs1 = length cs"
    "\<forall>i < length cs. snd (rs1 ! i) \<noteq> NULL
        \<and> fst (getElementByName (snd (cs ! i)) s2) = snd (rs1 ! i)" by auto
  from addElement_effect[OF a] ok
  have h: "new_handle orc f n s \<noteq> NULL"
    and m1: "m_pipeline_map s1 n = Some (new_handle orc f n s, NULL)" by auto
  from create_all_other[OF r nin] m1
  have m2: "m_pipeline_map s2 n = Some (new_handle orc f n s, NULL)" by simp
  have "snd (rs ! i) \<noteq> NULL \<and> fst (getElementByName (snd ((c # cs) ! i)) s') = snd (rs ! i)"
    if "i < length (c # cs)" for i
  proof (cases i)
    case 0
    with rs c s2 h m2 show ?thesis by (simp add: getElementByName_def)
  next
    case (Suc j)
    with that ih(2) rs s2 show ?thesis by simp
  qed
  with ih(1) rs show ?case by simp
qed

text \<open>
  C6. Run a sequence of two-argument \<^verbatim>\<open>addElement\<close> calls whose names are pairwise
  distinct and which all return true. Afterwards a lookup of the name of the \<open>i\<close>th call
  returns the stage which that call created, and this stage is not \<open>NULL\<close>; a lookup of a
  name that is in none of the calls and was not in the registry before returns \<open>NULL\<close>.
\<close>

theorem lookup_after_creates:
  assumes "distinct (map snd cs)" and "create_all orc cs s = (rs, s')" and "\<forall>r \<in> set rs. fst r"
  shows "length rs = length cs
     \<and> (\<forall>i < length cs. snd (rs ! i) \<noteq> NULL
                         \<and> fst (getElementByName (snd (cs ! i)) s') = snd (rs ! i))
     \<and> (\<forall>name. name \<notin> set (map snd cs) \<longrightarrow> m_pipeline_map s name = None
                  \<longrightarrow> fst (getElementByName name s') = NULL)"
  using create_all_lookup[OF assms] create_all_other[OF assms(2)]
  by (auto simp: getElementByName_def)

theorem lookup_after_creates_witness:
  "distinct (map snd [(''rtph264depay'', ''videodepay''), (''autovideosink'', ''videosink'')])
   \<and> fst (create_all gst_demo
            [(''rtph264depay'', ''videodepay''), (''autovideosink'', ''videosink'')] demo_graph)
       = [(True, 3), (True, 4)]
   \<and> fst (getElementByName ''videodepay'' (snd (create_all gst_demo
            [(''rtph264depay'', ''videodepay''), (''autovideosink'', ''videosink'')] demo_graph)))
       = 3
   \<and> fst (getElementByName ''videosink'' (snd (create_all gst_demo
            [(''rtph264depay'', ''videodepay''), (''autovideosink'', ''videosink'')] demo_graph)))
       = 4
   \<and> fst (getElementByName ''rtspsrc'' (snd (create_all gst_demo
            [(''rtph264depay'', ''videodepay''), (''autovideosink'', ''videosink'')] demo_graph)))
       = NULL"
proof -
  let ?cs = "[(''rtph264depay'', ''videodepay''), (''autovideosink'', ''videosink'')]"
  have d: "distinct (map snd ?cs)" by simp
  have r: "fst (create_all gst_demo ?cs demo_graph) = [(True, 3), (True, 4)]"
    by (simp add: new_handle_def demo_defs engine_defs class_defs Let_def eval_nat_numeral)
  have c: "create_all gst_demo ?cs demo_graph =
             ([(True, 3), (True, 4)], snd (create_all gst_demo ?cs demo_graph))"
    using r by (metis prod.collapse)
  have ok: "\<forall>r \<in> set [(True, 3::nat), (True, 4)]. fst r" by simp
  have e: "m_pipeline_map demo_graph ''rtspsrc'' = None"
    by (simp add: demo_defs split: prod.splits)
  from lookup_after_creates[OF d c ok]
  have l: "\<forall>i < length ?cs.
             fst (getElementByName (snd (?cs ! i)) (snd (create_all gst_demo ?cs demo_graph)))
               = snd ([(True, 3::nat), (True, 4)] ! i)"
    and u: "fst (getElementByName ''rtspsrc'' (snd (create_all gst_demo ?cs demo_graph))) = NULL"
    using e by auto
  from l[rule_format, of 0] l[rule_format, of 1] u d r show ?thesis by simp
qed








subsection \<open>Creating a stage together with a caps filter\<close>

lemma addElement_caps_never_true: "fst (addElement_caps orc f n c s) = False"
  by (simp add: addElement_caps_def split: prod.splits)

text \<open>
  C1 (the code departs from it). On the call made by \<^verbatim>\<open>runSimplePipeline\<close>, with the
  plugin installed, the graph accepting the stage and the caps string parsing, the
  three-argument \<^verbatim>\<open>addElement\<close> stores the new stage and its filter in the registry and
  still returns false.
\<close>

theorem addElement_caps_reports_failure:
  "factory_exists gst_demo ''videoconvert''
   \<and> caps_parses gst_demo ''video/x-raw, format=(string)I420''
   \<and> fst (addElement_caps gst_demo ''videoconvert'' ''videoconvert''
            ''video/x-raw, format=(string)I420'' demo_graph) = False
   \<and> m_pipeline_map (snd (addElement_caps gst_demo ''videoconvert'' ''videoconvert''
            ''video/x-raw, format=(string)I420'' demo_graph)) ''videoconvert'' = Some (3, 4)
   \<and> objects (gst (snd (addElement_caps gst_demo ''videoconvert'' ''videoconvert''
            ''video/x-raw, format=(string)I420'' demo_graph))) 3
       = Some (Element ''videoconvert'' ''videoconvert'' 2)
   \<and> GST_IS_CAPS (gst (snd (addElement_caps gst_demo ''videoconvert'' ''videoconvert''
            ''video/x-raw, format=(string)I420'' demo_graph))) 4"
  by (simp add: demo_defs engine_defs addElement_caps_def createElement_def Let_def
      eval_nat_numeral)

lemma failed_create_registry:
  "fst (addElement orc f n s) = False \<Longrightarrow>
     m_pipeline_map (snd (addElement orc f n s)) = m_pipeline_map s"
  using addElement_effect[of orc f n s False "snd (addElement orc f n s)"]
  by (metis prod.collapse)

text \<open>
  C4 (the code departs from it). Two failing three-argument calls on a new graph. With an
  unknown plugin and a caps string that parses, the call returns false and leaves the
  registry as it was, and the caps filter it allocated (at address 3, which was free
  before) is still in the store with its reference. With a known plugin and a caps string
  that does not parse, the call returns false and leaves the registry as it was, and the
  stage it created is still in the store, attached to the pipeline.
\<close>

theorem failed_addElement_caps_keeps_resources:
  "fst (addElement_caps gst_demo ''nosuchplugin'' ''x'' ''video/x-raw, format=(string)I420''
          demo_graph) = False
   \<and> m_pipeline_map (snd (addElement_caps gst_demo ''nosuchplugin'' ''x''
          ''video/x-raw, format=(string)I420'' demo_graph)) = m_pipeline_map demo_graph
   \<and> objects (gst demo_graph) 3 = None
   \<and> objects (gst (snd (addElement_caps gst_demo ''nosuchplugin'' ''x''
          ''video/x-raw, format=(string)I420'' demo_graph))) 3
        = Some (Caps ''video/x-raw, format=(string)I420'')
   \<and> refcount (gst (snd (addElement_caps gst_demo ''nosuchplugin'' ''x''
          ''video/x-raw, format=(string)I420'' demo_graph))) 3 = 1
   \<and> fst (addElement_caps gst_demo ''videoconvert'' ''y'' ''video/'' demo_graph) = False
   \<and> m_pipeline_map (snd (addElement_caps gst_demo ''videoconvert'' ''y'' ''video/''
          demo_graph)) = m_pipeline_map demo_graph
   \<and> objects (gst (snd (addElement_caps gst_demo ''videoconvert'' ''y'' ''video/''
          demo_graph))) 3 = Some (Element ''videoconvert'' ''y'' 2)"
  by (simp add: demo_defs engine_defs class_defs Let_def eval_nat_numeral)

subsection \<open>Consuming the caps filter\<close>

lemma linkElement_consumes_filter:
  "GST_IS_ELEMENT e el \<Longrightarrow> GST_IS_ELEMENT e ch \<Longrightarrow> GST_IS_CAPS e caps \<Longrightarrow>
     calls (snd (linkElement orc el caps ch a b e)) =
       calls e @ [ElementLinkFiltered el ch caps (fst (linkElement orc el caps ch a b e)),
                  CapsUnref caps]"
  by (simp add: linkElement_def gst_element_link_filtered_def gst_caps_unref_def g_unref_def
      record_call_def Let_def)

lemma link_once_state:
  "linkElementsByName gst_demo [''videoconvert'', ''videosink''] demo_stages =
     (True,
      demo_stages\<lparr>gst := (gst demo_stages)
         \<lparr>refcount := (refcount (gst demo_stages))(6 := 1),
          links := [((5, ''src''), (7, ''sink''))],
          calls := calls (gst demo_stages) @ [ElementLinkFiltered 5 7 6 True, CapsUnref 6]\<rparr>\<rparr>)"
  by (simp add: demo_stages_registry demo_stages_gst linkElement_def gst_demo_def engine_defs
      Let_def)

text \<open>
  C2 (the code departs from it). The registry entry of \<open>videoconvert\<close> holds the filter at
  address 6. Linking \<open>videoconvert\<close> to \<open>videosink\<close> succeeds and releases the filter once;
  the entry still holds the same address, and the filter is still alive there because the
  engine's filter stage has its own reference. Linking the same two names again presents
  the same filter: a second filtered link is attempted with it and the filter is released a
  second time. With an engine that lets a stage take part in several filtered links, both
  calls succeed from the same filter, which is released twice. With an engine that keeps no
  reference, the first link frees the filter and the registry entry goes on holding the
  address of the freed object.
\<close>

theorem filter_released_twice:
  "m_pipeline_map demo_stages ''videoconvert'' = Some (5, 6)
   \<and> fst (fst link_twice)
   \<and> m_pipeline_map (snd (fst link_twice)) ''videoconvert'' = Some (5, 6)
   \<and> GST_IS_CAPS (gst (snd (fst link_twice))) 6
   \<and> releases 6 (calls (gst (snd (fst link_twice)))) = 1
   \<and> drop (length (calls (gst demo_stages))) (calls (gst (snd (snd link_twice))))
       = [ElementLinkFiltered 5 7 6 True, CapsUnref 6,
          ElementLinkFiltered 5 7 6 False, CapsUnref 6]
   \<and> releases 6 (calls (gst (snd (snd link_twice)))) = 2
   \<and> fst (fst link_twice_permissive) \<and> fst (snd link_twice_permissive)
   \<and> releases 6 (calls (gst (snd (snd link_twice_permissive)))) = 2
   \<and> fst link_once_unkept
   \<and> m_pipeline_map (snd link_once_unkept) ''videoconvert'' = Some (5, 6)
   \<and> objects (gst (snd link_once_unkept)) 6 = None"
  by (simp add: link_twice_def link_twice_permissive_def link_once_unkept_def link_once_state
      Let_def demo_stages_registry demo_stages_gst linkElement_def gst_demo_def engine_defs)

subsection \<open>The callback for a new pad\<close>

lemma onPadAdded_linked:
  "GST_IS_ELEMENT e data \<Longrightarrow> gst_pad_is_linked e (Some (data, ''sink'')) \<Longrightarrow>
     onPadAdded orc element pad data e =
       e\<lparr>pad_refs := (pad_refs e)((data, ''sink'') := pad_refs e (data, ''sink'') + 1)\<rparr>"
  by (simp add: onPadAdded_def gst_element_get_static_pad_def gst_pad_is_linked_def)

lemma onPadAdded_no_link_when_linked:
  "gst_pad_is_linked e (Some (data, ''sink'')) \<Longrightarrow>
     links (onPadAdded orc element pad data e) = links e"
  by (auto simp: onPadAdded_def gst_element_get_static_pad_def gst_pad_is_linked_def
      gst_element_link_pads_def record_call_def Let_def)

lemma onPadAdded_links:
  "links (onPadAdded orc element pad data e) = links e
   \<or> (links (onPadAdded orc element pad data e)
        = links e @ [((element, gst_pad_get_name pad), (data, ''sink''))]
      \<and> gst_pad_is_linked (onPadAdded orc element pad data e) (Some (data, ''sink'')))"
  by (auto simp: onPadAdded_def gst_element_link_pads_def record_call_def Let_def
      gst_pad_is_linked_def gst_element_get_static_pad_def)

lemma onPadAdded_link_at_most_once:
  "length (links (onPadAdded orc element pad2 data (onPadAdded orc element pad data e)))
     \<le> length (links e) + 1"
proof -
  let ?e1 = "onPadAdded orc element pad data e"
  show ?thesis
  proof (cases "links ?e1 = links e")
    case True
    with onPadAdded_links[of orc element pad2 data ?e1] show ?thesis by auto
  next
    case False
    with onPadAdded_links[of orc element pad data e]
    have l: "links ?e1 = links e @ [((element, gst_pad_get_name pad), (data, ''sink''))]"
      and p: "gst_pad_is_linked ?e1 (Some (data, ''sink''))" by auto
    from onPadAdded_no_link_when_linked[OF p, of orc element pad2] l show ?thesis by simp
  qed
qed

text \<open>
  C5 (the code departs from it). The callback runs for a first pad of \<open>rtspsrc\<close> and links it
  to the \<open>sink\<close> pad of \<open>videodepay\<close>. It then runs for a second pad, with the target's
  \<open>sink\<close> pad already linked: it makes no link, and the links, the objects and the trace
  of calls are as before, but the reference that \<^verbatim>\<open>gst_element_get_static_pad\<close> handed
  out is not given back, so the number of outstanding references on the target's \<open>sink\<close>
  pad has grown from 1 to 2 and the state is not the one the invocation started from.
\<close>

theorem onPadAdded_keeps_pad_reference:
  "links (fst pad_added_twice) = [((3, ''recv_rtp_src_0''), (4, ''sink''))]
   \<and> gst_pad_is_linked (fst pad_added_twice) (Some (4, ''sink''))
   \<and> links (snd pad_added_twice) = links (fst pad_added_twice)
   \<and> objects (snd pad_added_twice) = objects (fst pad_added_twice)
   \<and> calls (snd pad_added_twice) = calls (fst pad_added_twice)
   \<and> pad_refs (fst pad_added_twice) (4, ''sink'') = 1
   \<and> pad_refs (snd pad_added_twice) (4, ''sink'') = 2
   \<and> snd pad_added_twice \<noteq> fst pad_added_twice"
proof -
  have e1: "fst pad_added_twice =
      (gst demo_stages)
        \<lparr>links := [((3, ''recv_rtp_src_0''), (4, ''sink''))],
         pad_refs := (\<lambda>_. 0)((4, ''sink'') := 1),
         calls := calls (gst demo_stages)
                    @ [ElementLinkPads 3 ''recv_rtp_src_0'' 4 ''sink'' True]\<rparr>"
    by (simp add: pad_added_twice_def Let_def demo_stages_gst onPadAdded_def gst_demo_def
        engine_defs)
  have l: "gst_pad_is_linked (fst pad_added_twice) (Some (4, ''sink''))"
    by (simp add: e1 gst_pad_is_linked_def)
  have g: "GST_IS_ELEMENT (fst pad_added_twice) 4"
    by (simp add: e1 demo_stages_gst GST_IS_ELEMENT_def)
  have e2: "snd pad_added_twice =
      (fst pad_added_twice)
        \<lparr>pad_refs := (pad_refs (fst pad_added_twice))
                       ((4, ''sink'') := pad_refs (fst pad_added_twice) (4, ''sink'') + 1)\<rparr>"
    using onPadAdded_linked[OF g l, of gst_demo 3 "(3, ''recv_rtp_src_1'')"]
    by (simp add: pad_added_twice_def Let_def)
  have r1: "pad_refs (fst pad_added_twice) (4, ''sink'') = 1" by (simp add: e1)
  have r2: "pad_refs (snd pad_added_twice) (4, ''sink'') = 2" by (simp add: e2 r1)
  from r1 r2 have ne: "snd pad_added_twice \<noteq> fst pad_added_twice" by auto
  have ll: "links (fst pad_added_twice) = [((3, ''recv_rtp_src_0''), (4, ''sink''))]"
    by (simp add: e1)
  have same: "links (snd pad_added_twice) = links (fst pad_added_twice)"
    "objects (snd pad_added_twice) = objects (fst pad_added_twice)"
    "calls (snd pad_added_twice) = calls (fst pad_added_twice)"
    by (simp_all add: e2)
  from ll l same r1 r2 ne show ?thesis by simp
qed

end
